theory Spec2Isabelle
  imports Complex_Main "HOL-Library.List_Lexorder" "HOL-Library.Char_ord"
    "HOL-Library.Multiset" "HOL-Library.Sublist"
begin

section \<open>The matching engine of the lost and found system (lost.py)\<close>

text \<open>
  The theory embeds \<^verbatim>\<open>preprocess\<close>, \<^verbatim>\<open>DB.get_items\<close> and the class
  \<^verbatim>\<open>Matcher\<close> of \<^verbatim>\<open>lost.py\<close>. Python strings are \<^typ>\<open>string\<close>; the character
  classes are the ASCII ones. A value that may be \<^verbatim>\<open>None\<close> is an option. The
  attributes of a \<^verbatim>\<open>Matcher\<close> object are a record that every method takes and
  returns. An exception is the left summand of a sum type.
\<close>

subsection \<open>Python strings\<close>

definition ascii_lowercase :: string where
  "ascii_lowercase = ''abcdefghijklmnopqrstuvwxyz''"

definition ascii_uppercase :: string where
  "ascii_uppercase = ''ABCDEFGHIJKLMNOPQRSTUVWXYZ''"

definition ascii_digits :: string where
  "ascii_digits = ''0123456789''"

definition whitespace :: string where
  "whitespace = [CHR '' '', CHR 0x09, CHR 0x0A, CHR 0x0B, CHR 0x0C, CHR 0x0D]"

text \<open>\<^verbatim>\<open>str.lower\<close>, one character at a time.\<close>

definition lower_char :: "char \<Rightarrow> char" where
  "lower_char c =
     (case map_of (zip ascii_uppercase ascii_lowercase) c of Some d \<Rightarrow> d | None \<Rightarrow> c)"

definition lower :: "string \<Rightarrow> string" where
  "lower s = map lower_char s"

text \<open>\<^verbatim>\<open>str.isalpha\<close>: at least one character, and every character a letter.\<close>

definition isalpha :: "string \<Rightarrow> bool" where
  "isalpha s = (s \<noteq> [] \<and> list_all (\<lambda>c. c \<in> set (ascii_lowercase @ ascii_uppercase)) s)"

text \<open>\<^verbatim>\<open>sep.join(tokens)\<close>.\<close>

fun join :: "string \<Rightarrow> string list \<Rightarrow> string" where
  "join sep [] = []"
| "join sep [t] = t"
| "join sep (t # u # ts) = t @ sep @ join sep (u # ts)"

text \<open>\<^verbatim>\<open>word.endswith(suffix)\<close>; \<open>sfx\<close> is the suffix.\<close>

definition endswith :: "string \<Rightarrow> string \<Rightarrow> bool" where
  "endswith word sfx =
     (length sfx \<le> length word \<and> drop (length word - length sfx) word = sfx)"

text \<open>
  The maximal runs of characters that satisfy \<open>P\<close>, from left to right; \<open>cur\<close> is
  the run being read. With \<open>P\<close> the characters that are not white space this is
  \<^verbatim>\<open>str.split()\<close>.
\<close>

fun runs :: "(char \<Rightarrow> bool) \<Rightarrow> string \<Rightarrow> string \<Rightarrow> string list" where
  "runs P cur [] = (if cur = [] then [] else [cur])"
| "runs P cur (c # cs) =
     (if P c then runs P (cur @ [c]) cs
      else (if cur = [] then [] else [cur]) @ runs P [] cs)"

definition split_ws :: "string \<Rightarrow> string list" where
  "split_ws s = runs (\<lambda>c. c \<notin> set whitespace) [] s"

subsection \<open>The names imported from NLTK\<close>

text \<open>
  \<^verbatim>\<open>word_tokenize\<close>, \<^verbatim>\<open>STOPWORDS = set(stopwords.words('english'))\<close> and
  \<^verbatim>\<open>STEMMER.stem\<close> come from the NLTK library, which is not part of the
  repository. The program is modelled over any three such values: they are the
  fields of a record that \<open>preprocess\<close> takes as its first argument.
\<close>

record nltk =
  word_tokenize :: "string \<Rightarrow> string list"
  STOPWORDS :: "string set"
  stem :: "string \<Rightarrow> string"

subsection \<open>preprocess (lost.py, lines 163 to 170)\<close>

definition preprocess :: "nltk \<Rightarrow> string option \<Rightarrow> string" where
  "preprocess L text =
     (case text of
        None \<Rightarrow> []
      | Some s \<Rightarrow>
          if s = [] then []
          else
            (let s1 = lower s;
                 tokens = word_tokenize L s1;
                 tokens = filter (\<lambda>t. isalpha t \<and> t \<notin> STOPWORDS L) tokens;
                 tokens = map (stem L) tokens
             in join '' '' tokens))"

text \<open>
  The normalizer as section 4.1 of the specification words it: null or empty
  input gives the empty sequence; otherwise (1) lowercase, (2) tokenize and
  discard every token that holds a character that is not a letter, (3) remove
  the stopwords, (4) stem.
\<close>

definition spec_normalize :: "nltk \<Rightarrow> string option \<Rightarrow> string list" where
  "spec_normalize L text =
     (case text of
        None \<Rightarrow> []
      | Some s \<Rightarrow>
          if s = [] then []
          else
            map (stem L)
              (filter (\<lambda>t. t \<notin> STOPWORDS L)
                 (filter isalpha (word_tokenize L (lower s)))))"

subsection \<open>An instance of the NLTK names\<close>

text \<open>
  For evaluations at concrete texts the three names get the values the library
  gives them. The stemmer follows \<^verbatim>\<open>nltk.stem.porter.PorterStemmer\<close> in its
  default mode \<^verbatim>\<open>NLTK_EXTENSIONS\<close>, method by method; \<open>stm\<close> stands for the
  library's local variable \<^verbatim>\<open>stem\<close> and \<open>measure_vc\<close> for \<^verbatim>\<open>_measure\<close>. Every
  call of \<open>is_consonant word i\<close> has \<open>i < length word\<close>.
\<close>

definition vowels :: string where
  "vowels = ''aeiou''"

fun is_consonant :: "string \<Rightarrow> nat \<Rightarrow> bool" where
  "is_consonant word i =
     (if word ! i \<in> set vowels then False
      else if word ! i = CHR ''y'' then
        (if i = 0 then True else \<not> is_consonant word (i - 1))
      else True)"

declare is_consonant.simps [simp del]

definition cv_sequence :: "string \<Rightarrow> string" where
  "cv_sequence stm =
     map (\<lambda>i. if is_consonant stm i then CHR ''c'' else CHR ''v'') [0..<length stm]"

fun count_vc :: "string \<Rightarrow> nat" where
  "count_vc (a # b # cs) =
     (if a = CHR ''v'' \<and> b = CHR ''c'' then Suc (count_vc cs) else count_vc (b # cs))"
| "count_vc cs = 0"

definition measure_vc :: "string \<Rightarrow> nat" where
  "measure_vc stm = count_vc (cv_sequence stm)"

definition has_positive_measure :: "string \<Rightarrow> bool" where
  "has_positive_measure stm = (measure_vc stm > 0)"

definition contains_vowel :: "string \<Rightarrow> bool" where
  "contains_vowel stm = list_ex (\<lambda>i. \<not> is_consonant stm i) [0..<length stm]"

definition ends_double_consonant :: "string \<Rightarrow> bool" where
  "ends_double_consonant word =
     (length word \<ge> 2
      \<and> word ! (length word - 1) = word ! (length word - 2)
      \<and> is_consonant word (length word - 1))"

definition ends_cvc :: "string \<Rightarrow> bool" where
  "ends_cvc word =
     ((length word \<ge> 3
       \<and> is_consonant word (length word - 3)
       \<and> \<not> is_consonant word (length word - 2)
       \<and> is_consonant word (length word - 1)
       \<and> word ! (length word - 1) \<notin> set ''wxy'')
      \<or> (length word = 2 \<and> \<not> is_consonant word 0 \<and> is_consonant word 1))"

definition replace_suffix :: "string \<Rightarrow> string \<Rightarrow> string \<Rightarrow> string" where
  "replace_suffix word sfx replacement =
     (if sfx = [] then word @ replacement
      else take (length word - length sfx) word @ replacement)"

type_synonym rule = "string \<times> string \<times> (string \<Rightarrow> bool) option"

fun apply_rule_list :: "string \<Rightarrow> rule list \<Rightarrow> string" where
  "apply_rule_list word [] = word"
| "apply_rule_list word ((sfx, replacement, condition) # rules) =
     (if sfx = ''*d'' \<and> ends_double_consonant word then
        (let stm = take (length word - 2) word in
         if (case condition of None \<Rightarrow> True | Some c \<Rightarrow> c stm) then stm @ replacement
         else word)
      else if endswith word sfx then
        (let stm = replace_suffix word sfx [] in
         if (case condition of None \<Rightarrow> True | Some c \<Rightarrow> c stm) then stm @ replacement
         else word)
      else apply_rule_list word rules)"

definition step1a :: "string \<Rightarrow> string" where
  "step1a word =
     (if endswith word ''ies'' \<and> length word = 4 then replace_suffix word ''ies'' ''ie''
      else apply_rule_list word
        [(''sses'', ''ss'', None),
         (''ies'', ''i'', None),
         (''ss'', ''ss'', None),
         (''s'', [], None)])"

definition step1b :: "string \<Rightarrow> string" where
  "step1b word =
     (if endswith word ''ied'' then
        (if length word = 4 then replace_suffix word ''ied'' ''ie''
         else replace_suffix word ''ied'' ''i'')
      else if endswith word ''eed'' then
        (let stm = replace_suffix word ''eed'' [] in
         if measure_vc stm > 0 then stm @ ''ee'' else word)
      else
        (case filter (\<lambda>sfx. endswith word sfx
                        \<and> contains_vowel (replace_suffix word sfx []))
                [''ed'', ''ing''] of
           [] \<Rightarrow> word
         | sfx # _ \<Rightarrow>
             (let intermediate_stem = replace_suffix word sfx [] in
              apply_rule_list intermediate_stem
                [(''at'', ''ate'', None),
                 (''bl'', ''ble'', None),
                 (''iz'', ''ize'', None),
                 (''*d'', [last intermediate_stem],
                    Some (\<lambda>stm. last intermediate_stem \<notin> set ''lsz'')),
                 ([], ''e'', Some (\<lambda>stm. measure_vc stm = 1 \<and> ends_cvc stm))])))"

definition step1c :: "string \<Rightarrow> string" where
  "step1c word =
     apply_rule_list word
       [(''y'', ''i'',
           Some (\<lambda>stm. length stm > 1 \<and> is_consonant stm (length stm - 1)))]"

definition step2_rules :: "string \<Rightarrow> rule list" where
  "step2_rules word =
     [(''ational'', ''ate'', Some has_positive_measure),
      (''tional'', ''tion'', Some has_positive_measure),
      (''enci'', ''ence'', Some has_positive_measure),
      (''anci'', ''ance'', Some has_positive_measure),
      (''izer'', ''ize'', Some has_positive_measure),
      (''bli'', ''ble'', Some has_positive_measure),
      (''alli'', ''al'', Some has_positive_measure),
      (''entli'', ''ent'', Some has_positive_measure),
      (''eli'', ''e'', Some has_positive_measure),
      (''ousli'', ''ous'', Some has_positive_measure),
      (''ization'', ''ize'', Some has_positive_measure),
      (''ation'', ''ate'', Some has_positive_measure),
      (''ator'', ''ate'', Some has_positive_measure),
      (''alism'', ''al'', Some has_positive_measure),
      (''iveness'', ''ive'', Some has_positive_measure),
      (''fulness'', ''ful'', Some has_positive_measure),
      (''ousness'', ''ous'', Some has_positive_measure),
      (''aliti'', ''al'', Some has_positive_measure),
      (''iviti'', ''ive'', Some has_positive_measure),
      (''biliti'', ''ble'', Some has_positive_measure),
      (''fulli'', ''ful'', Some has_positive_measure),
      (''logi'', ''log'',
         Some (\<lambda>stm. has_positive_measure (take (length word - 3) word)))]"

function step2 :: "string \<Rightarrow> string" where
  "step2 word =
     (if endswith word ''alli'' \<and> has_positive_measure (replace_suffix word ''alli'' [])
      then step2 (replace_suffix word ''alli'' ''al'')
      else apply_rule_list word (step2_rules word))"
  by pat_completeness auto
termination
  by (relation "measure length") (auto simp: endswith_def replace_suffix_def)

declare step2.simps [simp del]

definition step3 :: "string \<Rightarrow> string" where
  "step3 word =
     apply_rule_list word
       [(''icate'', ''ic'', Some has_positive_measure),
        (''ative'', [], Some has_positive_measure),
        (''alize'', ''al'', Some has_positive_measure),
        (''iciti'', ''ic'', Some has_positive_measure),
        (''ical'', ''ic'', Some has_positive_measure),
        (''ful'', [], Some has_positive_measure),
        (''ness'', [], Some has_positive_measure)]"

definition measure_gt_1 :: "string \<Rightarrow> bool" where
  "measure_gt_1 stm = (measure_vc stm > 1)"

definition step4 :: "string \<Rightarrow> string" where
  "step4 word =
     apply_rule_list word
       [(''al'', [], Some measure_gt_1),
        (''ance'', [], Some measure_gt_1),
        (''ence'', [], Some measure_gt_1),
        (''er'', [], Some measure_gt_1),
        (''ic'', [], Some measure_gt_1),
        (''able'', [], Some measure_gt_1),
        (''ible'', [], Some measure_gt_1),
        (''ant'', [], Some measure_gt_1),
        (''ement'', [], Some measure_gt_1),
        (''ment'', [], Some measure_gt_1),
        (''ent'', [], Some measure_gt_1),
        (''ion'', [], Some (\<lambda>stm. measure_vc stm > 1 \<and> last stm \<in> set ''st'')),
        (''ou'', [], Some measure_gt_1),
        (''ism'', [], Some measure_gt_1),
        (''ate'', [], Some measure_gt_1),
        (''iti'', [], Some measure_gt_1),
        (''ous'', [], Some measure_gt_1),
        (''ive'', [], Some measure_gt_1),
        (''ize'', [], Some measure_gt_1)]"

definition step5a :: "string \<Rightarrow> string" where
  "step5a word =
     (if endswith word ''e'' then
        (let stm = replace_suffix word ''e'' [] in
         if measure_vc stm > 1 then stm
         else if measure_vc stm = 1 \<and> \<not> ends_cvc stm then stm
         else word)
      else word)"

definition step5b :: "string \<Rightarrow> string" where
  "step5b word =
     apply_rule_list word
       [(''ll'', ''l'', Some (\<lambda>stm. measure_vc (take (length word - 1) word) > 1))]"

definition irregular_forms :: "(string \<times> string list) list" where
  "irregular_forms =
     [(''sky'', [''sky'', ''skies'']),
      (''die'', [''dying'']),
      (''lie'', [''lying'']),
      (''tie'', [''tying'']),
      (''news'', [''news'']),
      (''inning'', [''innings'', ''inning'']),
      (''outing'', [''outings'', ''outing'']),
      (''canning'', [''cannings'', ''canning'']),
      (''howe'', [''howe'']),
      (''proceed'', [''proceed'']),
      (''exceed'', [''exceed'']),
      (''succeed'', [''succeed''])]"

definition pool :: "(string \<times> string) list" where
  "pool = concat (map (\<lambda>(key, vals). map (\<lambda>val. (val, key)) vals) irregular_forms)"

definition porter_stem :: "string \<Rightarrow> string" where
  "porter_stem word =
     (let stm = lower word in
      case map_of pool word of
        Some key \<Rightarrow> key
      | None \<Rightarrow>
          if length word \<le> 2 then stm
          else step5b (step5a (step4 (step3 (step2 (step1c (step1b (step1a stm))))))))"

text \<open>
  \<^verbatim>\<open>stopwords.words('english')\<close>. Later releases of the list add entries that
  hold an apostrophe; \<open>preprocess\<close> looks up alphabetic tokens only.
\<close>

definition english_stopwords :: "string list" where
  "english_stopwords =
     [''i'', ''me'', ''my'', ''myself'', ''we'', ''our'', ''ours'',
      ''ourselves'', ''you'', ''you're'', ''you've'', ''you'll'',
      ''you'd'', ''your'', ''yours'', ''yourself'', ''yourselves'', ''he'',
      ''him'', ''his'', ''himself'', ''she'', ''she's'', ''her'', ''hers'',
      ''herself'', ''it'', ''it's'', ''its'', ''itself'', ''they'',
      ''them'', ''their'', ''theirs'', ''themselves'', ''what'', ''which'',
      ''who'', ''whom'', ''this'', ''that'', ''that'll'', ''these'',
      ''those'', ''am'', ''is'', ''are'', ''was'', ''were'', ''be'',
      ''been'', ''being'', ''have'', ''has'', ''had'', ''having'', ''do'',
      ''does'', ''did'', ''doing'', ''a'', ''an'', ''the'', ''and'',
      ''but'', ''if'', ''or'', ''because'', ''as'', ''until'', ''while'',
      ''of'', ''at'', ''by'', ''for'', ''with'', ''about'', ''against'',
      ''between'', ''into'', ''through'', ''during'', ''before'',
      ''after'', ''above'', ''below'', ''to'', ''from'', ''up'', ''down'',
      ''in'', ''out'', ''on'', ''off'', ''over'', ''under'', ''again'',
      ''further'', ''then'', ''once'', ''here'', ''there'', ''when'',
      ''where'', ''why'', ''how'', ''all'', ''any'', ''both'', ''each'',
      ''few'', ''more'', ''most'', ''other'', ''some'', ''such'', ''no'',
      ''nor'', ''not'', ''only'', ''own'', ''same'', ''so'', ''than'',
      ''too'', ''very'', ''s'', ''t'', ''can'', ''will'', ''just'',
      ''don'', ''don't'', ''should'', ''should've'', ''now'', ''d'',
      ''ll'', ''m'', ''o'', ''re'', ''ve'', ''y'', ''ain'', ''aren'',
      ''aren't'', ''couldn'', ''couldn't'', ''didn'', ''didn't'',
      ''doesn'', ''doesn't'', ''hadn'', ''hadn't'', ''hasn'', ''hasn't'',
      ''haven'', ''haven't'', ''isn'', ''isn't'', ''ma'', ''mightn'',
      ''mightn't'', ''mustn'', ''mustn't'', ''needn'', ''needn't'',
      ''shan'', ''shan't'', ''shouldn'', ''shouldn't'', ''wasn'',
      ''wasn't'', ''weren'', ''weren't'', ''won'', ''won't'', ''wouldn'',
      ''wouldn't'']"

text \<open>
  \<^verbatim>\<open>word_tokenize\<close> on a text of letters, digits and white space: the sentence
  splitter finds no boundary and the Treebank rules no punctuation, so the
  text is divided at white space. (The library also divides the words
  \<^verbatim>\<open>cannot\<close>, \<^verbatim>\<open>gimme\<close>, \<^verbatim>\<open>gonna\<close>, \<^verbatim>\<open>gotta\<close>, \<^verbatim>\<open>lemme\<close> and \<^verbatim>\<open>wanna\<close>, and it
  separates punctuation; the instance is evaluated at no text that holds
  either.)
\<close>

definition word_tokenize_plain :: "string \<Rightarrow> string list" where
  "word_tokenize_plain text = split_ws text"

definition nltk_english :: nltk where
  "nltk_english =
     \<lparr>word_tokenize = word_tokenize_plain,
      STOPWORDS = set english_stopwords,
      stem = porter_stem\<rparr>"

subsection \<open>Items and DB.get_items (lost.py, lines 145 to 157)\<close>

text \<open>
  A row of the table \<^verbatim>\<open>items\<close>, and the dictionary \<^verbatim>\<open>find_matches\<close> is called
  with. The keys \<^verbatim>\<open>id\<close> and \<^verbatim>\<open>type\<close> are the fields \<open>item_id\<close> and \<open>item_type\<close>;
  the text columns may hold \<^verbatim>\<open>None\<close>.
\<close>

record item =
  item_id :: string
  item_type :: string
  name :: "string option"
  description :: "string option"
  place :: "string option"
  date :: "string option"
  contact :: "string option"
  image_path :: "string option"

text \<open>
  The database is the list of its rows, in the order a \<^verbatim>\<open>SELECT\<close> returns them.
  The matcher calls \<^verbatim>\<open>get_items\<close> with \<^verbatim>\<open>search=None\<close>, which leaves the two
  branches below: \<^verbatim>\<open>elif type\<close> (a string that is not empty) and \<^verbatim>\<open>else\<close>.
\<close>

definition get_items :: "item list \<Rightarrow> string option \<Rightarrow> item list" where
  "get_items rows ty =
     (case ty of
        None \<Rightarrow> rows
      | Some t \<Rightarrow> if t \<noteq> [] then filter (\<lambda>it. item_type it = t) rows else rows)"

subsection \<open>The names imported from scikit-learn\<close>

text \<open>
  \<^verbatim>\<open>TfidfVectorizer()\<close> with its default parameters and \<^verbatim>\<open>cosine_similarity\<close>,
  after the library's documentation. The analyzer lowercases a document and
  returns the matches of the token pattern \<^verbatim>\<open>(?u)\b\w\w+\b\<close>: the maximal runs
  of word characters that hold two characters or more. \<^verbatim>\<open>fit\<close> raises
  \<^verbatim>\<open>ValueError\<close> (empty vocabulary) when no document holds a token. The weights
  are \<^verbatim>\<open>float64\<close> in the library and exact reals here.
\<close>

datatype error = ValueError | IndexError

definition word_chars :: string where
  "word_chars = ascii_lowercase @ ascii_uppercase @ ascii_digits @ ''_''"

definition token_pattern_findall :: "string \<Rightarrow> string list" where
  "token_pattern_findall doc =
     filter (\<lambda>t. 2 \<le> length t) (runs (\<lambda>c. c \<in> set word_chars) [] doc)"

definition analyzer :: "string \<Rightarrow> string list" where
  "analyzer doc = token_pattern_findall (lower doc)"

text \<open>The terms of the corpus, sorted; each term's column is its position.\<close>

definition build_vocabulary :: "string list \<Rightarrow> string list" where
  "build_vocabulary raw_documents = sort (remdups (concat (map analyzer raw_documents)))"

record tfidf_vectorizer =
  vocabulary :: "string list"
  idf :: "real list"

text \<open>The number of documents that hold the term.\<close>

definition document_frequency :: "string list \<Rightarrow> string \<Rightarrow> nat" where
  "document_frequency raw_documents t =
     length (filter (\<lambda>doc. t \<in> set (analyzer doc)) raw_documents)"

text \<open>\<^verbatim>\<open>smooth_idf=True\<close>: \<open>idf(t) = ln ((1 + n) / (1 + df(t))) + 1\<close>.\<close>

definition smooth_idf :: "string list \<Rightarrow> string \<Rightarrow> real" where
  "smooth_idf raw_documents t =
     ln ((1 + real (length raw_documents)) / (1 + real (document_frequency raw_documents t))) + 1"

definition TfidfVectorizer_fit :: "string list \<Rightarrow> error + tfidf_vectorizer" where
  "TfidfVectorizer_fit raw_documents =
     (let vocab = build_vocabulary raw_documents in
      if vocab = [] then Inl ValueError
      else Inr \<lparr>vocabulary = vocab, idf = map (smooth_idf raw_documents) vocab\<rparr>)"

text \<open>\<^verbatim>\<open>norm='l2'\<close>: a row is divided by its Euclidean norm; a zero row is left as it is.\<close>

definition l2_normalize :: "real list \<Rightarrow> real list" where
  "l2_normalize row =
     (let norm = sqrt (sum_list (map (\<lambda>x. x * x) row)) in
      if norm = 0 then row else map (\<lambda>x. x / norm) row)"

text \<open>
  One row for each document: the count of each term of the vocabulary in the
  document times the term's idf, normalized. A token outside the vocabulary
  is counted nowhere.
\<close>

definition transform :: "tfidf_vectorizer \<Rightarrow> string list \<Rightarrow> real list list" where
  "transform v raw_documents =
     map (\<lambda>doc.
            l2_normalize
              (map (\<lambda>(t, w). real (count_list (analyzer doc) t) * w)
                 (zip (vocabulary v) (idf v))))
       raw_documents"

definition dot :: "real list \<Rightarrow> real list \<Rightarrow> real" where
  "dot x y = sum_list (map (\<lambda>(a, b). a * b) (zip x y))"

text \<open>\<^verbatim>\<open>cosine_similarity(X, Y)\<close> normalizes the rows of both and multiplies.\<close>

definition cosine_similarity :: "real list list \<Rightarrow> real list list \<Rightarrow> real list list" where
  "cosine_similarity X Y =
     map (\<lambda>x. map (\<lambda>y. dot (l2_normalize x) (l2_normalize y)) Y) X"

subsection \<open>Python's sorted and slices\<close>

text \<open>
  \<^verbatim>\<open>sorted(xs, key=key, reverse=True)\<close>: the list is reversed, sorted by a stable
  ascending sort, and reversed again.
\<close>

definition sorted_reverse :: "('a \<Rightarrow> 'k::linorder) \<Rightarrow> 'a list \<Rightarrow> 'a list" where
  "sorted_reverse key xs = rev (sort_key key (rev xs))"

text \<open>\<^verbatim>\<open>xs[:k]\<close>; a negative \<open>k\<close> counts from the end.\<close>

definition slice_to :: "'a list \<Rightarrow> int \<Rightarrow> 'a list" where
  "slice_to xs k =
     (if 0 \<le> k then take (nat k) xs else take (length xs - nat (- k)) xs)"

subsection \<open>Matcher (lost.py, lines 173 to 207)\<close>

record matcher =
  vectorizer :: "tfidf_vectorizer option"
  corpus_ids :: "string list"
  corpus_texts :: "string list"

text \<open>\<^verbatim>\<open>Matcher.__init__\<close>.\<close>

definition matcher_init :: matcher where
  "matcher_init = \<lparr>vectorizer = None, corpus_ids = [], corpus_texts = []\<rparr>"

text \<open>\<^verbatim>\<open>x or ''\<close>.\<close>

definition or_empty :: "string option \<Rightarrow> string" where
  "or_empty x = (case x of None \<Rightarrow> [] | Some s \<Rightarrow> s)"

text \<open>The text of an item: name, description and place with a blank between.\<close>

definition item_text :: "item \<Rightarrow> string" where
  "item_text it =
     or_empty (name it) @ '' '' @ or_empty (description it) @ '' '' @ or_empty (place it)"

text \<open>
  \<^verbatim>\<open>build\<close> stores the ids and the texts before it fits the vectorizer: when
  \<^verbatim>\<open>fit\<close> raises, the object keeps them, with the vectorizer it had.
\<close>

definition build :: "nltk \<Rightarrow> item list \<Rightarrow> string \<Rightarrow> matcher \<Rightarrow> (error + unit) \<times> matcher" where
  "build L rows opposite_type self =
     (let items = get_items rows (Some opposite_type);
          self = self\<lparr>corpus_ids := map item_id items\<rparr>;
          self = self\<lparr>corpus_texts := map (\<lambda>it. preprocess L (Some (item_text it))) items\<rparr>
      in
        if length (corpus_texts self) = 0 then (Inr (), self\<lparr>vectorizer := None\<rparr>)
        else
          (case TfidfVectorizer_fit (corpus_texts self) of
             Inl e \<Rightarrow> (Inl e, self)
           | Inr v \<Rightarrow> (Inr (), self\<lparr>vectorizer := Some v\<rparr>)))"

text \<open>Line 190.\<close>

definition opposite :: "item \<Rightarrow> string" where
  "opposite item = (if item_type item = ''lost'' then ''found'' else ''lost'')"

text \<open>
  The loop of lines 201 to 206. \<^verbatim>\<open>rows[0]\<close> is the first fetched dictionary
  with the id, and the assignment to its key \<^verbatim>\<open>_score\<close> is seen through every
  reference to that dictionary already in \<^verbatim>\<open>results\<close>. A result is the pair of
  the row and its \<^verbatim>\<open>_score\<close>.
\<close>

fun collect_results ::
  "item list \<Rightarrow> (string \<times> real) list \<Rightarrow> (item \<times> real) list \<Rightarrow> (item \<times> real) list" where
  "collect_results all_opposite [] results = results"
| "collect_results all_opposite ((cid, score) # rest) results =
     (case filter (\<lambda>it. item_id it = cid) all_opposite of
        [] \<Rightarrow> collect_results all_opposite rest results
      | it # _ \<Rightarrow>
          collect_results all_opposite rest
            (map (\<lambda>(r, s). if item_id r = cid then (r, score) else (r, s)) results
             @ [(it, score)]))"

definition find_matches ::
  "nltk \<Rightarrow> item list \<Rightarrow> matcher \<Rightarrow> item \<Rightarrow> int \<Rightarrow> (error + (item \<times> real) list) \<times> matcher" where
  "find_matches L rows self item topk =
     (case build L rows (opposite item) self of
        (Inl e, self) \<Rightarrow> (Inl e, self)
      | (Inr _, self) \<Rightarrow>
          (case vectorizer self of
             None \<Rightarrow> (Inr [], self)
           | Some v \<Rightarrow>
               (let query = preprocess L (Some (item_text item));
                    qv = transform v [query];
                    corpus_v = transform v (corpus_texts self)
                in
                  case cosine_similarity qv corpus_v of
                    [] \<Rightarrow> (Inl IndexError, self)
                  | sims # _ \<Rightarrow>
                      (let ranked = sorted_reverse snd (zip (corpus_ids self) sims);
                           all_opposite = get_items rows (Some (opposite item))
                       in (Inr (collect_results all_opposite (slice_to ranked topk) []),
                           self)))))"

subsection \<open>Auxiliary notions\<close>

text \<open>The texts \<^verbatim>\<open>build\<close> stores in \<^verbatim>\<open>corpus_texts\<close> for the fetched items.\<close>

definition docs_of :: "nltk \<Rightarrow> item list \<Rightarrow> string list" where
  "docs_of L items = map (\<lambda>it. preprocess L (Some (item_text it))) items"

text \<open>A token sequence without its tokens of one character.\<close>

definition drop_single_letters :: "string list \<Rightarrow> string list" where
  "drop_single_letters ts = filter (\<lambda>t. length t \<noteq> 1) ts"

subsection \<open>Sample rows\<close>

text \<open>
  Rows and queries for the evaluations: two found items and a lost one; two
  found items whose text holds a stopword and digits only; a query whose type
  is neither \<^verbatim>\<open>lost\<close> nor \<^verbatim>\<open>found\<close>.
\<close>

definition found_wallet :: item where
  "found_wallet =
     \<lparr>item_id = ''f1'', item_type = ''found'', name = Some ''Black Wallet'',
      description = Some ''leather wallet with cards'', place = Some ''Library'',
      date = Some ''2024-01-05'', contact = Some ''9876500001'', image_path = None\<rparr>"

definition found_umbrella :: item where
  "found_umbrella =
     \<lparr>item_id = ''f2'', item_type = ''found'', name = Some ''Blue umbrella'',
      description = None, place = Some ''Canteen'',
      date = Some ''2024-01-06'', contact = Some ''9876500002'', image_path = None\<rparr>"

definition lost_wallet :: item where
  "lost_wallet =
     \<lparr>item_id = ''l1'', item_type = ''lost'', name = Some ''wallet'',
      description = Some ''black'', place = Some ''library'',
      date = Some ''2024-01-07'', contact = Some ''9876500003'', image_path = None\<rparr>"

definition sample_rows :: "item list" where
  "sample_rows = [found_wallet, lost_wallet, found_umbrella]"

definition found_stopword :: item where
  "found_stopword =
     \<lparr>item_id = ''f3'', item_type = ''found'', name = Some ''the'',
      description = Some ''123'', place = Some [],
      date = Some ''2024-01-08'', contact = Some ''9876500004'', image_path = None\<rparr>"

definition found_digit :: item where
  "found_digit =
     \<lparr>item_id = ''f4'', item_type = ''found'', name = Some ''7'',
      description = Some [], place = Some [],
      date = Some ''2024-01-09'', contact = Some [], image_path = None\<rparr>"

definition garbage_rows :: "item list" where
  "garbage_rows = [found_stopword, lost_wallet, found_digit]"

definition mistyped_query :: item where
  "mistyped_query =
     \<lparr>item_id = ''q1'', item_type = ''banana'', name = Some ''wallet'',
      description = None, place = None,
      date = Some ''2024-01-10'', contact = None, image_path = None\<rparr>"

section \<open>Properties\<close>

subsection \<open>The normalizer\<close>

text \<open>
  C1. For every input, \<open>preprocess\<close> is the pipeline of the specification:
  lowercase the text, tokenize it, discard every token that is not wholly
  alphabetic, remove the stopwords, stem what is left. The program returns
  the tokens joined by single blanks. For null and for empty input the
  sequence is empty and the result is the empty string; nothing is raised.
\<close>

theorem preprocess_is_spec_pipeline:
  "preprocess L text = join '' '' (spec_normalize L text)
   \<and> spec_normalize L None = []
   \<and> spec_normalize L (Some []) = []
   \<and> preprocess L None = []
   \<and> preprocess L (Some []) = []"
  by (simp add: preprocess_def spec_normalize_def split: option.splits)

theorem preprocess_is_spec_pipeline_witness:
  "preprocess nltk_english (Some ''The Black WALLETS 123 x9'') = ''black wallet''
   \<and> spec_normalize nltk_english (Some ''The Black WALLETS 123 x9'') = [''black'', ''wallet'']"
proof -
  have "spec_normalize nltk_english (Some ''The Black WALLETS 123 x9'') = [''black'', ''wallet'']"
    by code_simp
  then show ?thesis
    using preprocess_is_spec_pipeline [of nltk_english "Some ''The Black WALLETS 123 x9''"]
    by simp
qed

text \<open>
  C8 as stated fails: the output of \<open>preprocess\<close> on \<^verbatim>\<open>owns\<close> is \<^verbatim>\<open>own\<close>, which
  is a stopword, so a second pass returns the empty string.
\<close>

theorem preprocess_not_idempotent:
  "preprocess nltk_english (Some (preprocess nltk_english (Some ''owns'')))
     \<noteq> preprocess nltk_english (Some ''owns'')"
  by code_simp

text \<open>
  C8, amended. \<open>preprocess\<close> maps its own output to itself when the tokenizer
  returns the tokens of the output on it and every one of them is alphabetic,
  no stopword and its own stem.
\<close>

theorem preprocess_fixed_on_stable_tokens:
  assumes "ts = spec_normalize L text"
    and "word_tokenize L (lower (join '' '' ts)) = ts"
    and "\<forall>t \<in> set ts. isalpha t \<and> t \<notin> STOPWORDS L \<and> stem L t = t"
  shows "preprocess L (Some (preprocess L text)) = preprocess L text"
proof -
  have p: "preprocess L text = join '' '' ts"
    using assms(1) by (simp add: preprocess_def spec_normalize_def split: option.splits)
  have f: "filter (\<lambda>t. isalpha t \<and> t \<notin> STOPWORDS L) ts = ts"
    using assms(3) by (simp add: filter_id_conv)
  have m: "map (stem L) ts = ts" using assms(3) by (simp add: map_idI)
  have "preprocess L (Some (join '' '' ts)) = join '' '' ts"
  proof (cases "join '' '' ts = []")
    case True
    then show ?thesis by (simp add: preprocess_def)
  next
    case False
    then show ?thesis by (simp add: preprocess_def assms(2) f m)
  qed
  then show ?thesis by (simp only: p)
qed

theorem preprocess_fixed_on_stable_tokens_witness:
  "spec_normalize nltk_english (Some ''Black wallets'') = [''black'', ''wallet'']
   \<and> preprocess nltk_english (Some (preprocess nltk_english (Some ''Black wallets'')))
       = preprocess nltk_english (Some ''Black wallets'')"
proof -
  have s: "[''black'', ''wallet''] = spec_normalize nltk_english (Some ''Black wallets'')"
    by code_simp
  have w: "word_tokenize nltk_english (lower (join '' '' [''black'', ''wallet'']))
             = [''black'', ''wallet'']"
    by code_simp
  have f: "\<forall>t \<in> set [''black'', ''wallet''].
             isalpha t \<and> t \<notin> STOPWORDS nltk_english \<and> stem nltk_english t = t"
    by code_simp
  from preprocess_fixed_on_stable_tokens [OF s w f] s show ?thesis by simp
qed

subsection \<open>Sorting and slicing\<close>

lemma mset_sorted_reverse: "mset (sorted_reverse key xs) = mset xs"
  by (simp add: sorted_reverse_def)

lemma length_sorted_reverse: "length (sorted_reverse key xs) = length xs"
  by (simp add: sorted_reverse_def)

lemma set_sorted_reverse: "set (sorted_reverse key xs) = set xs"
  by (simp add: sorted_reverse_def)

lemma sorted_reverse_descending: "sorted (rev (map key (sorted_reverse key xs)))"
  by (simp add: sorted_reverse_def rev_map)

lemma sorted_reverse_stable:
  "filter (\<lambda>x. key x = s) (sorted_reverse key xs) = filter (\<lambda>x. key x = s) xs"
  by (simp add: sorted_reverse_def rev_filter [symmetric] sort_key_stable)

lemma distinct_map_sorted_reverse:
  "distinct (map f (sorted_reverse key xs)) = distinct (map f xs)"
proof -
  have "mset (map f (sorted_reverse key xs)) = mset (map f xs)"
    by (simp add: mset_sorted_reverse)
  then show ?thesis by (rule mset_eq_imp_distinct_iff)
qed

lemma insort_key_map: "insort_key key (g x) (map g xs) = map g (insort_key (\<lambda>y. key (g y)) x xs)"
  by (induction xs) auto

lemma sort_key_map: "sort_key key (map g xs) = map g (sort_key (\<lambda>y. key (g y)) xs)"
  by (induction xs) (auto simp: insort_key_map)

lemma sorted_reverse_map:
  "sorted_reverse key (map g xs) = map g (sorted_reverse (\<lambda>y. key (g y)) xs)"
  by (simp add: sorted_reverse_def rev_map sort_key_map)

lemma slice_to_nonneg: "0 \<le> k \<Longrightarrow> slice_to xs k = take (nat k) xs"
  by (simp add: slice_to_def)

lemma slice_to_map: "slice_to (map g xs) k = map g (slice_to xs k)"
  by (simp add: slice_to_def take_map)

lemma slice_to_is_take: "\<exists>n. slice_to xs k = take n xs"
  by (auto simp: slice_to_def)

lemma set_slice_to: "set (slice_to xs k) \<subseteq> set xs"
  by (auto simp: slice_to_def dest: in_set_takeD)

lemma sorted_rev_take: "sorted (rev xs) \<Longrightarrow> sorted (rev (take n (xs :: 'a::linorder list)))"
  by (simp add: rev_take)

lemma subseq_ties:
  fixes zs :: "('a \<times> 'k::linorder) list"
  shows "subseq (map fst (filter (\<lambda>r. snd r = s) (take n (sorted_reverse snd zs)))) (map fst zs)"
proof -
  have "prefix (filter (\<lambda>r. snd r = s) (take n (sorted_reverse snd zs)))
          (filter (\<lambda>r. snd r = s) (sorted_reverse snd zs))"
    by (rule filter_mono_prefix) (rule take_is_prefix)
  then have "subseq (filter (\<lambda>r. snd r = s) (take n (sorted_reverse snd zs)))
          (filter (\<lambda>r. snd r = s) zs)"
    by (simp add: sorted_reverse_stable prefix_imp_subseq)
  then have "subseq (filter (\<lambda>r. snd r = s) (take n (sorted_reverse snd zs))) zs"
    using subseq_filter_left subseq_order.trans by blast
  then show ?thesis by (rule subseq_map)
qed

subsection \<open>The three outcomes of find_matches\<close>

lemma get_items_opposite:
  "get_items rows (Some (opposite item)) = filter (\<lambda>it. item_type it = opposite item) rows"
  by (simp add: get_items_def opposite_def)

lemma distinct_ids_get_items:
  "distinct (map item_id rows) \<Longrightarrow> distinct (map item_id (get_items rows (Some (opposite item))))"
  by (simp add: get_items_opposite distinct_map_filter)

lemma build_empty:
  "get_items rows (Some t) = [] \<Longrightarrow>
   build L rows t m = (Inr (), \<lparr>vectorizer = None, corpus_ids = [], corpus_texts = []\<rparr>)"
  by (simp add: build_def Let_def)

lemma build_raises:
  "get_items rows (Some t) \<noteq> [] \<Longrightarrow> build_vocabulary (docs_of L (get_items rows (Some t))) = [] \<Longrightarrow>
   build L rows t m = (Inl ValueError, m\<lparr>corpus_ids := map item_id (get_items rows (Some t)),
      corpus_texts := docs_of L (get_items rows (Some t))\<rparr>)"
  by (simp add: build_def docs_of_def TfidfVectorizer_fit_def Let_def)

lemma build_fits:
  "get_items rows (Some t) \<noteq> [] \<Longrightarrow> build_vocabulary (docs_of L (get_items rows (Some t))) \<noteq> [] \<Longrightarrow>
   \<exists>v. TfidfVectorizer_fit (docs_of L (get_items rows (Some t))) = Inr v \<and>
   build L rows t m = (Inr (), \<lparr>vectorizer = Some v, corpus_ids = map item_id (get_items rows (Some t)),
      corpus_texts = docs_of L (get_items rows (Some t))\<rparr>)"
  by (simp add: build_def docs_of_def TfidfVectorizer_fit_def Let_def)

lemma find_matches_empty:
  "get_items rows (Some (opposite item)) = [] \<Longrightarrow>
   find_matches L rows m item k = (Inr [], \<lparr>vectorizer = None, corpus_ids = [], corpus_texts = []\<rparr>)"
  by (simp add: find_matches_def build_empty)

lemma find_matches_raises:
  "get_items rows (Some (opposite item)) \<noteq> [] \<Longrightarrow>
   build_vocabulary (docs_of L (get_items rows (Some (opposite item)))) = [] \<Longrightarrow>
   fst (find_matches L rows m item k) = Inl ValueError"
  by (simp add: find_matches_def build_raises)

lemma cosine_single: "\<exists>row. cosine_similarity (transform v [q]) Y = [row] \<and> length row = length Y"
  by (simp add: cosine_similarity_def transform_def)

lemma find_matches_ranked:
  assumes "get_items rows (Some (opposite item)) = items" "items \<noteq> []"
    and "build_vocabulary (docs_of L items) \<noteq> []"
  shows "\<exists>sims. length sims = length items \<and>
     fst (find_matches L rows m item k) =
       Inr (collect_results items (slice_to (sorted_reverse snd (zip (map item_id items) sims)) k) [])"
proof -
  from build_fits [of rows "opposite item" L m] assms obtain v where
    b: "build L rows (opposite item) m = (Inr (), \<lparr>vectorizer = Some v, corpus_ids = map item_id items,
      corpus_texts = docs_of L items\<rparr>)" by auto
  obtain row where r: "cosine_similarity (transform v [preprocess L (Some (item_text item))])
      (transform v (docs_of L items)) = [row]" and l: "length row = length (transform v (docs_of L items))"
    using cosine_single by blast
  have "length row = length items" using l by (simp add: transform_def docs_of_def)
  moreover have "fst (find_matches L rows m item k) =
       Inr (collect_results items (slice_to (sorted_reverse snd (zip (map item_id items) row)) k) [])"
    by (simp add: find_matches_def b r assms(1))
  ultimately show ?thesis by blast
qed

lemma find_matches_state_free:
  "fst (find_matches L rows m item k) = fst (find_matches L rows m' item k)"
  by (simp add: find_matches_def build_def Let_def split: sum.splits list.splits)

subsection \<open>The loop that collects the results\<close>

lemma collect_results_length:
  "\<forall>p \<in> set slice. fst p \<in> item_id ` set items \<Longrightarrow>
   length (collect_results items slice acc) = length acc + length slice"
proof (induction slice arbitrary: acc)
  case Nil
  then show ?case by simp
next
  case (Cons p slice)
  obtain cid score where p: "p = (cid, score)" by (cases p)
  from Cons.prems p have "cid \<in> item_id ` set items" by simp
  then have "filter (\<lambda>it. item_id it = cid) items \<noteq> []"
    by (auto simp: filter_empty_conv)
  then obtain it its where f: "filter (\<lambda>it. item_id it = cid) items = it # its"
    by (cases "filter (\<lambda>it. item_id it = cid) items") auto
  from Cons.prems have "\<forall>p \<in> set slice. fst p \<in> item_id ` set items" by simp
  from Cons.IH [OF this] show ?case by (simp add: p f)
qed

lemma collect_results_items:
  "fst ` set (collect_results items slice acc) \<subseteq> fst ` set acc \<union> set items"
proof (induction slice arbitrary: acc)
  case Nil
  then show ?case by simp
next
  case (Cons p slice)
  obtain cid score where p: "p = (cid, score)" by (cases p)
  let ?acc' = "map (\<lambda>(r, s). if item_id r = cid then (r, score) else (r, s)) acc"
  have a: "fst ` set ?acc' = fst ` set acc" by (force simp: image_iff split: if_splits)
  show ?case
  proof (cases "filter (\<lambda>it. item_id it = cid) items")
    case Nil
    then show ?thesis using Cons.IH [of acc] by (simp add: p)
  next
    case (Cons it its)
    then have "it \<in> set (filter (\<lambda>it. item_id it = cid) items)" by simp
    then have "it \<in> set items" by simp
    then show ?thesis using Cons.IH [of "?acc' @ [(it, score)]"] a
      by (auto simp add: p Cons)
  qed
qed

lemma collect_results_no_alias:
  "distinct (map fst slice) \<Longrightarrow> fst ` set slice \<inter> item_id ` fst ` set acc = {} \<Longrightarrow>
   collect_results items slice acc =
     acc @ concat (map (\<lambda>(cid, s). case filter (\<lambda>it. item_id it = cid) items of
                                     [] \<Rightarrow> [] | it # _ \<Rightarrow> [(it, s)]) slice)"
proof (induction slice arbitrary: acc)
  case Nil
  then show ?case by simp
next
  case (Cons p slice)
  obtain cid score where p: "p = (cid, score)" by (cases p)
  from Cons.prems p have nin: "cid \<notin> item_id ` fst ` set acc" by auto
  have same: "map (\<lambda>(r, s). if item_id r = cid then (r, score) else (r, s)) acc = acc"
    using nin by (induction acc) (auto simp: image_iff)
  from Cons.prems p have d: "distinct (map fst slice)" and c: "cid \<notin> fst ` set slice" by auto
  show ?case
  proof (cases "filter (\<lambda>it. item_id it = cid) items")
    case Nil
    have "fst ` set slice \<inter> item_id ` fst ` set acc = {}" using Cons.prems by auto
    from Cons.IH [OF d this] show ?thesis by (simp add: p Nil)
  next
    case (Cons it its)
    then have "it \<in> set (filter (\<lambda>it. item_id it = cid) items)" by simp
    then have "item_id it = cid" by simp
    then have "fst ` set slice \<inter> item_id ` fst ` set (acc @ [(it, score)]) = {}"
      using Cons.prems(2) c by auto
    from Cons.IH [OF d this] show ?thesis by (simp add: p Cons same)
  qed
qed

lemma filter_id_distinct:
  "distinct (map item_id items) \<Longrightarrow> x \<in> set items \<Longrightarrow>
   filter (\<lambda>it. item_id it = item_id x) items = [x]"
proof (induction items)
  case Nil
  then show ?case by simp
next
  case (Cons a items)
  show ?case
  proof (cases "x = a")
    case True
    with Cons.prems have "\<forall>y \<in> set items. item_id y \<noteq> item_id a" by (auto simp: image_iff)
    then have "filter (\<lambda>it. item_id it = item_id a) items = []" by (simp add: filter_empty_conv)
    with True show ?thesis by simp
  next
    case False
    with Cons.prems have "x \<in> set items" and "item_id a \<noteq> item_id x" by (auto simp: image_iff)
    with Cons show ?thesis by simp
  qed
qed

lemma collect_results_distinct:
  assumes "distinct (map item_id items)" and "set ps \<subseteq> set (zip items sims)"
    and "distinct (map fst ps)"
  shows "collect_results items (map (\<lambda>(x, s). (item_id x, s)) ps) [] = ps"
proof -
  have inj: "inj_on item_id (set items)" using assms(1) by (simp add: distinct_map)
  have mem: "\<forall>p \<in> set ps. fst p \<in> set items"
  proof
    fix p assume "p \<in> set ps"
    then have "p \<in> set (zip items sims)" using assms(2) by blast
    then show "fst p \<in> set items" by (metis set_zip_leftD prod.collapse)
  qed
  have sub: "set (map fst ps) \<subseteq> set items" using mem by auto
  have eq: "map fst (map (\<lambda>(x, s). (item_id x, s)) ps) = map item_id (map fst ps)"
    by (induction ps) auto
  have "distinct (map item_id (map fst ps))"
    unfolding distinct_map [of item_id "map fst ps"]
    using assms(3) inj_on_subset [OF inj sub] by simp
  then have d: "distinct (map fst (map (\<lambda>(x, s). (item_id x, s)) ps))"
    unfolding eq .
  have "concat (map (\<lambda>(cid, s). case filter (\<lambda>it. item_id it = cid) items of
                                     [] \<Rightarrow> [] | it # _ \<Rightarrow> [(it, s)]) (map (\<lambda>(x, s). (item_id x, s)) ps)) = ps"
    using mem
  proof (induction ps)
    case Nil
    then show ?case by simp
  next
    case (Cons p ps)
    obtain x s where p: "p = (x, s)" by (cases p)
    with Cons.prems have "x \<in> set items" by simp
    from filter_id_distinct [OF assms(1) this] Cons show ?case by (simp add: p)
  qed
  with collect_results_no_alias [OF d, of "[]" items] show ?thesis by simp
qed

lemma collect_results_ids:
  "\<forall>p \<in> set slice. fst p \<in> item_id ` set items \<Longrightarrow>
   map (\<lambda>r. item_id (fst r)) (collect_results items slice acc) =
     map (\<lambda>r. item_id (fst r)) acc @ map fst slice"
proof (induction slice arbitrary: acc)
  case Nil
  then show ?case by simp
next
  case (Cons p slice)
  obtain cid score where p: "p = (cid, score)" by (cases p)
  from Cons.prems p have "cid \<in> item_id ` set items" by simp
  then have "filter (\<lambda>it. item_id it = cid) items \<noteq> []"
    by (auto simp: filter_empty_conv)
  then obtain it its where f: "filter (\<lambda>it. item_id it = cid) items = it # its"
    by (cases "filter (\<lambda>it. item_id it = cid) items") auto
  then have "it \<in> set (filter (\<lambda>it. item_id it = cid) items)" by simp
  then have i: "item_id it = cid" by simp
  from Cons.prems have "\<forall>p \<in> set slice. fst p \<in> item_id ` set items" by simp
  from Cons.IH [OF this] show ?case by (auto simp add: p f i split: prod.splits)
qed

lemma ranked_ids_known:
  "length sims = length items \<Longrightarrow>
   \<forall>p \<in> set (slice_to (sorted_reverse snd (zip (map item_id items) sims)) k).
      fst p \<in> item_id ` set items"
proof
  fix p assume l: "length sims = length items"
    and "p \<in> set (slice_to (sorted_reverse snd (zip (map item_id items) sims)) k)"
  then have "p \<in> set (zip (map item_id items) sims)"
    using set_slice_to [of "sorted_reverse snd (zip (map item_id items) sims)" k]
    by (auto simp: set_sorted_reverse)
  then have "fst p \<in> set (map item_id items)" by (metis set_zip_leftD prod.collapse)
  then show "fst p \<in> item_id ` set items" by simp
qed

subsection \<open>What find_matches returns\<close>

lemma find_matches_distinct:
  assumes "get_items rows (Some (opposite item)) = items" "items \<noteq> []"
    and "build_vocabulary (docs_of L items) \<noteq> []"
    and "distinct (map item_id rows)"
  shows "\<exists>sims. length sims = length items \<and>
     fst (find_matches L rows m item k) = Inr (slice_to (sorted_reverse snd (zip items sims)) k)"
proof -
  from find_matches_ranked [OF assms(1-3)] obtain sims where
    l: "length sims = length items" and
    f: "fst (find_matches L rows m item k) =
       Inr (collect_results items (slice_to (sorted_reverse snd (zip (map item_id items) sims)) k) [])"
    by blast
  let ?g = "\<lambda>(x, s). (item_id x, s :: real)"
  let ?ps = "slice_to (sorted_reverse snd (zip items sims)) k"
  have z: "zip (map item_id items) sims = map ?g (zip items sims)"
    by (simp add: zip_map1)
  have k: "(\<lambda>y. snd (?g y)) = snd" by (auto simp: fun_eq_iff)
  have s: "slice_to (sorted_reverse snd (zip (map item_id items) sims)) k = map ?g ?ps"
    by (simp only: z sorted_reverse_map k slice_to_map)
  have di: "distinct (map item_id items)"
    using distinct_ids_get_items [OF assms(4), of item] assms(1) by simp
  then have "distinct items" by (rule distinct_map [THEN iffD1, THEN conjunct1])
  then have "distinct (map fst (zip items sims))" by (simp add: l)
  then have "distinct (map fst (sorted_reverse snd (zip items sims)))"
    by (simp only: distinct_map_sorted_reverse)
  moreover obtain n where n: "?ps = take n (sorted_reverse snd (zip items sims))"
    using slice_to_is_take by blast
  ultimately have d: "distinct (map fst ?ps)" by (simp add: take_map [symmetric])
  have sub: "set ?ps \<subseteq> set (zip items sims)"
    using set_slice_to [of "sorted_reverse snd (zip items sims)" k]
    by (simp add: set_sorted_reverse)
  from collect_results_distinct [OF di sub d] f s l show ?thesis by auto
qed

lemma find_matches_returns:
  assumes "0 \<le> k" and "get_items rows (Some (opposite item)) = items"
    and "items = [] \<or> build_vocabulary (docs_of L items) \<noteq> []"
  shows "\<exists>rs. fst (find_matches L rows m item k) = Inr rs
           \<and> length rs = min (nat k) (length items)
           \<and> (length items \<le> nat k \<longrightarrow>
                mset (map (\<lambda>r. item_id (fst r)) rs) = mset (map item_id items))"
proof (cases "items = []")
  case True
  then show ?thesis using assms(2) by (simp add: find_matches_empty)
next
  case False
  with assms(3) have v: "build_vocabulary (docs_of L items) \<noteq> []" by simp
  from find_matches_ranked [OF assms(2) False v, of m k] obtain sims where
    l: "length sims = length items" and
    f: "fst (find_matches L rows m item k) =
       Inr (collect_results items (slice_to (sorted_reverse snd (zip (map item_id items) sims)) k) [])"
    by blast
  let ?ranked = "sorted_reverse snd (zip (map item_id items) sims)"
  let ?rs = "collect_results items (slice_to ?ranked k) []"
  note known = ranked_ids_known [OF l, of k]
  have len: "length ?rs = min (nat k) (length items)"
    using collect_results_length [OF known, of "[]"] assms(1)
    by (simp add: slice_to_nonneg length_sorted_reverse l min.commute)
  have ids: "map (\<lambda>r. item_id (fst r)) ?rs = map fst (slice_to ?ranked k)"
    using collect_results_ids [OF known, of "[]"] by simp
  have "mset (map (\<lambda>r. item_id (fst r)) ?rs) = mset (map item_id items)"
    if "length items \<le> nat k"
  proof -
    have "slice_to ?ranked k = ?ranked"
      using that assms(1) by (simp add: slice_to_nonneg length_sorted_reverse l)
    then have "map (\<lambda>r. item_id (fst r)) ?rs = map fst ?ranked"
      using ids by simp
    then have "mset (map (\<lambda>r. item_id (fst r)) ?rs) = mset (map fst ?ranked)"
      by simp
    also have "\<dots> = mset (map fst (zip (map item_id items) sims))"
      by (simp add: mset_sorted_reverse)
    also have "\<dots> = mset (map item_id items)"
      by (simp add: l)
    finally show ?thesis .
  qed
  with f len show ?thesis by blast
qed

lemma find_matches_results_in_corpus:
  assumes "fst (find_matches L rows m item k) = Inr rs"
  shows "fst ` set rs \<subseteq> set (get_items rows (Some (opposite item)))"
proof -
  let ?items = "get_items rows (Some (opposite item))"
  show ?thesis
  proof (cases "?items = []")
    case True
    then show ?thesis using assms by (simp add: find_matches_empty)
  next
    case False
    then have v: "build_vocabulary (docs_of L ?items) \<noteq> []"
      using find_matches_raises [of rows item L m k] assms by auto
    from find_matches_ranked [OF refl False v, of m k] assms obtain slice where
      "rs = collect_results ?items slice []" by auto
    then show ?thesis using collect_results_items [of ?items slice "[]"] by simp
  qed
qed

subsection \<open>The similarities in exact arithmetic\<close>

text \<open>
  With the weights read as exact reals every similarity lies between 0 and 1
  (Cauchy and Schwarz), and a row of zeros has similarity 0 with every row.
  The library computes each product, sum, quotient and root in \<^verbatim>\<open>float64\<close>; the
  lemmas below say nothing about the rounded values.
\<close>

lemma dot_Cons: "dot (a # x) (b # y) = a * b + dot x y"
  by (simp add: dot_def)

lemma dot_Nil: "dot [] y = 0" "dot x [] = 0"
  by (simp_all add: dot_def)

lemma squares_nonneg: "0 \<le> sum_list (map (\<lambda>x. x * x) (row :: real list))"
  by (rule sum_list_nonneg) auto

lemma cross_term:
  fixes a b D A B :: real
  assumes "D\<^sup>2 \<le> A * B" "0 \<le> A" "0 \<le> B"
  shows "2 * a * b * D \<le> a\<^sup>2 * B + A * b\<^sup>2"
proof (rule power2_le_imp_le)
  show "0 \<le> a\<^sup>2 * B + A * b\<^sup>2" using assms by simp
  have "(2 * a * b * D)\<^sup>2 = 4 * (a\<^sup>2 * b\<^sup>2) * D\<^sup>2" by (simp add: power_mult_distrib)
  also have "\<dots> \<le> 4 * (a\<^sup>2 * b\<^sup>2) * (A * B)"
    using assms(1) by (intro mult_left_mono) auto
  also have "\<dots> = 4 * (a\<^sup>2 * B) * (A * b\<^sup>2)" by simp
  also have "\<dots> \<le> (a\<^sup>2 * B + A * b\<^sup>2)\<^sup>2"
  proof -
    have "0 \<le> (a\<^sup>2 * B - A * b\<^sup>2)\<^sup>2" by simp
    then show ?thesis by (simp add: power2_eq_square algebra_simps)
  qed
  finally show "(2 * a * b * D)\<^sup>2 \<le> (a\<^sup>2 * B + A * b\<^sup>2)\<^sup>2" .
qed

lemma dot_squared_le:
  "(dot x y)\<^sup>2 \<le> sum_list (map (\<lambda>x. x * x) x) * sum_list (map (\<lambda>x. x * x) y)"
proof (induction x arbitrary: y)
  case Nil
  then show ?case by (simp add: dot_Nil)
next
  case (Cons a x)
  show ?case
  proof (cases y)
    case Nil
    then show ?thesis by (simp add: dot_Nil)
  next
    case (Cons b ys)
    let ?A = "sum_list (map (\<lambda>x. x * x) x)" and ?B = "sum_list (map (\<lambda>x. x * x) ys)"
    have c: "2 * a * b * dot x ys \<le> a\<^sup>2 * ?B + ?A * b\<^sup>2"
      by (rule cross_term [OF Cons.IH squares_nonneg squares_nonneg])
    have "(dot (a # x) y)\<^sup>2 = a\<^sup>2 * b\<^sup>2 + 2 * a * b * dot x ys + (dot x ys)\<^sup>2"
      by (simp add: Cons dot_Cons power2_eq_square algebra_simps)
    also have "\<dots> \<le> a\<^sup>2 * b\<^sup>2 + (a\<^sup>2 * ?B + ?A * b\<^sup>2) + ?A * ?B"
      using c Cons.IH [of ys] by simp
    also have "\<dots> = sum_list (map (\<lambda>x. x * x) (a # x)) * sum_list (map (\<lambda>x. x * x) y)"
      by (simp add: Cons power2_eq_square algebra_simps)
    finally show ?thesis .
  qed
qed

lemma sum_list_divide:
  "sum_list (map (\<lambda>x. f x / c) xs) = sum_list (map f xs) / (c :: real)"
  by (induction xs) (simp_all add: add_divide_distrib)

lemma l2_normalize_squares: "sum_list (map (\<lambda>x. x * x) (l2_normalize row)) \<le> 1"
proof (cases "sum_list (map (\<lambda>x. x * x) row) = 0")
  case True
  then show ?thesis by (simp add: l2_normalize_def)
next
  case False
  let ?s = "sum_list (map (\<lambda>x. x * x) row)"
  have pos: "0 < ?s" using False squares_nonneg [of row] by simp
  have "sum_list (map (\<lambda>x. x * x) (map (\<lambda>x. x / sqrt ?s) row))
          = sum_list (map (\<lambda>x. (x * x) / ?s) row)"
    using pos by (simp add: comp_def)
  also have "\<dots> = ?s / ?s"
    by (rule sum_list_divide)
  finally show ?thesis using False by (simp add: l2_normalize_def Let_def)
qed

lemma l2_normalize_nonneg:
  "\<forall>x \<in> set row. 0 \<le> x \<Longrightarrow> \<forall>x \<in> set (l2_normalize row). 0 \<le> x"
  by (auto simp: l2_normalize_def Let_def squares_nonneg intro!: divide_nonneg_nonneg)

lemma l2_normalize_zero:
  "sum_list (map (\<lambda>x. x * x) row) = 0 \<Longrightarrow> \<forall>x \<in> set (l2_normalize row). x = 0"
proof -
  assume "sum_list (map (\<lambda>x. x * x) row) = 0"
  moreover have "\<forall>x \<in> set (map (\<lambda>x. x * x) row). 0 \<le> x" by auto
  ultimately have "\<forall>x \<in> set (map (\<lambda>x. x * x) row). x = 0"
    by (simp only: sum_list_nonneg_eq_0_iff)
  then have "\<forall>x \<in> set row. x = 0" by simp
  then show ?thesis by (auto simp: l2_normalize_def Let_def)
qed

lemma dot_zero_right: "\<forall>b \<in> set y. b = 0 \<Longrightarrow> dot x y = 0"
proof (induction x arbitrary: y)
  case Nil
  then show ?case by (simp add: dot_Nil)
next
  case (Cons a x)
  then show ?case by (cases y) (auto simp: dot_Nil dot_Cons)
qed

lemma dot_nonneg: "\<forall>a \<in> set x. 0 \<le> a \<Longrightarrow> \<forall>b \<in> set y. 0 \<le> b \<Longrightarrow> 0 \<le> dot x y"
proof (induction x arbitrary: y)
  case Nil
  then show ?case by (simp add: dot_Nil)
next
  case (Cons a x)
  then show ?case by (cases y) (auto simp: dot_Nil dot_Cons)
qed

lemma cosine_exact_bounds:
  assumes "\<forall>a \<in> set x. 0 \<le> a" "\<forall>b \<in> set y. 0 \<le> b"
  shows "0 \<le> dot (l2_normalize x) (l2_normalize y)"
    and "dot (l2_normalize x) (l2_normalize y) \<le> 1"
proof -
  show "0 \<le> dot (l2_normalize x) (l2_normalize y)"
    using assms by (intro dot_nonneg l2_normalize_nonneg)
  have "(dot (l2_normalize x) (l2_normalize y))\<^sup>2 \<le> 1 * 1"
    by (rule order_trans [OF dot_squared_le])
       (intro mult_mono l2_normalize_squares squares_nonneg, simp)
  then have "(dot (l2_normalize x) (l2_normalize y))\<^sup>2 \<le> 1\<^sup>2" by simp
  then show "dot (l2_normalize x) (l2_normalize y) \<le> 1"
    by (rule power2_le_imp_le) simp
qed

lemma cosine_zero_row:
  assumes "sum_list (map (\<lambda>x. x * x) y) = 0"
  shows "dot (l2_normalize x) (l2_normalize y) = 0"
  using l2_normalize_zero [OF assms] by (rule dot_zero_right)

lemma smooth_idf_pos: "1 \<le> smooth_idf docs t"
proof -
  have "document_frequency docs t \<le> length docs"
    by (simp add: document_frequency_def)
  then have "1 \<le> (1 + real (length docs)) / (1 + real (document_frequency docs t))"
    by (simp add: le_divide_eq)
  then have "0 \<le> ln ((1 + real (length docs)) / (1 + real (document_frequency docs t)))"
    by simp
  then show ?thesis by (simp add: smooth_idf_def)
qed

lemma fitted_idf_nonneg:
  "TfidfVectorizer_fit docs = Inr v \<Longrightarrow> \<forall>w \<in> set (idf v). 0 \<le> w"
proof -
  assume "TfidfVectorizer_fit docs = Inr v"
  then have "idf v = map (smooth_idf docs) (build_vocabulary docs)"
    by (auto simp: TfidfVectorizer_fit_def Let_def split: if_splits)
  moreover have "0 \<le> smooth_idf docs t" for t
    using smooth_idf_pos [of docs t] by simp
  ultimately show ?thesis by auto
qed

lemma transform_nonneg:
  assumes "\<forall>w \<in> set (idf v). 0 \<le> w" and "row \<in> set (transform v ds)"
  shows "\<forall>x \<in> set row. 0 \<le> x"
proof -
  from assms(2) obtain d where
    r: "row = l2_normalize (map (\<lambda>(t, w). real (count_list (analyzer d) t) * w)
                              (zip (vocabulary v) (idf v)))"
    by (auto simp: transform_def)
  have "\<forall>x \<in> set (map (\<lambda>(t, w). real (count_list (analyzer d) t) * w)
                      (zip (vocabulary v) (idf v))). 0 \<le> x"
    using assms(1) by (auto dest: set_zip_rightD)
  then show ?thesis unfolding r by (rule l2_normalize_nonneg)
qed

lemma cosine_row_bounds:
  assumes "\<forall>w \<in> set (idf v). 0 \<le> w"
    and "cosine_similarity (transform v [q]) (transform v ds) = [sims]"
  shows "\<forall>s \<in> set sims. 0 \<le> s \<and> s \<le> 1"
proof -
  obtain qrow where q: "transform v [q] = [qrow]" by (simp add: transform_def)
  then have "qrow \<in> set (transform v [q])" by simp
  from transform_nonneg [OF assms(1) this] have qn: "\<forall>x \<in> set qrow. 0 \<le> x" .
  from assms(2) q have "sims = map (\<lambda>y. dot (l2_normalize qrow) (l2_normalize y)) (transform v ds)"
    by (simp add: cosine_similarity_def)
  then show ?thesis
    using cosine_exact_bounds [OF qn transform_nonneg [OF assms(1)]] by auto
qed

lemma collect_results_scores:
  "snd ` set (collect_results items slice acc) \<subseteq> snd ` set acc \<union> snd ` set slice"
proof (induction slice arbitrary: acc)
  case Nil
  then show ?case by simp
next
  case (Cons p slice)
  obtain cid score where p: "p = (cid, score)" by (cases p)
  let ?acc' = "map (\<lambda>(r, s). if item_id r = cid then (r, score) else (r, s)) acc"
  have a: "snd ` set ?acc' \<subseteq> snd ` set acc \<union> {score}"
    by (auto split: if_splits)
  show ?case
  proof (cases "filter (\<lambda>it. item_id it = cid) items")
    case Nil
    then show ?thesis using Cons.IH [of acc] by (auto simp: p)
  next
    case (Cons it its)
    have "snd ` set (collect_results items slice (?acc' @ [(it, score)]))
            \<subseteq> snd ` set (?acc' @ [(it, score)]) \<union> snd ` set slice"
      by (rule Cons.IH)
    also have "\<dots> \<subseteq> (snd ` set acc \<union> {score}) \<union> snd ` set slice"
      using a by (simp add: image_Un) blast
    also have "\<dots> = snd ` set acc \<union> snd ` set (p # slice)"
      by (auto simp: p)
    finally show ?thesis by (simp add: p Cons)
  qed
qed

lemma find_matches_scores_exact:
  assumes "fst (find_matches L rows m item k) = Inr rs"
  shows "\<forall>r \<in> set rs. 0 \<le> snd r \<and> snd r \<le> 1"
proof -
  let ?items = "get_items rows (Some (opposite item))"
  show ?thesis
  proof (cases "?items = []")
    case True
    then show ?thesis using assms by (simp add: find_matches_empty)
  next
    case False
    then have voc: "build_vocabulary (docs_of L ?items) \<noteq> []"
      using find_matches_raises [of rows item L m k] assms by auto
    from build_fits [OF False voc, of m] obtain v where
      fit: "TfidfVectorizer_fit (docs_of L ?items) = Inr v" and
      b: "build L rows (opposite item) m = (Inr (), \<lparr>vectorizer = Some v,
            corpus_ids = map item_id ?items, corpus_texts = docs_of L ?items\<rparr>)" by auto
    obtain sims where c: "cosine_similarity (transform v [preprocess L (Some (item_text item))])
      (transform v (docs_of L ?items)) = [sims]"
      using cosine_single by blast
    from cosine_row_bounds [OF fitted_idf_nonneg [OF fit] c]
    have bound: "\<forall>s \<in> set sims. 0 \<le> s \<and> s \<le> 1" .
    let ?slice = "slice_to (sorted_reverse snd (zip (map item_id ?items) sims)) k"
    have "rs = collect_results ?items ?slice []"
      using assms by (simp add: find_matches_def b c)
    then have "snd ` set rs \<subseteq> snd ` set ?slice"
      using collect_results_scores [of ?items ?slice "[]"] by simp
    also have "\<dots> \<subseteq> snd ` set (zip (map item_id ?items) sims)"
      using set_slice_to [of "sorted_reverse snd (zip (map item_id ?items) sims)" k]
      by (auto simp: set_sorted_reverse)
    also have "\<dots> \<subseteq> set sims"
      by (auto dest: set_zip_rightD)
    finally show ?thesis using bound by auto
  qed
qed

subsection \<open>Evaluations at the sample rows\<close>

lemma sample_found: "get_items sample_rows (Some (opposite lost_wallet)) = [found_wallet, found_umbrella]"
  by code_simp

lemma sample_vocabulary: "build_vocabulary (docs_of nltk_english [found_wallet, found_umbrella]) \<noteq> []"
  by code_simp

lemma sample_distinct: "distinct (map item_id sample_rows)"
  by code_simp

subsection \<open>The claims about find_matches\<close>

text \<open>
  C2. A corpus that is not empty and whose records all normalize to the
  empty document makes \<^verbatim>\<open>fit\<close> raise \<^verbatim>\<open>ValueError\<close>, and \<open>find_matches\<close> does
  not catch it: with one found item named \<^verbatim>\<open>the\<close> and described as \<^verbatim>\<open>123\<close> and
  one found item named \<^verbatim>\<open>7\<close>, a lost query ends in the exception.
\<close>

theorem find_matches_raises_on_garbage_corpus:
  "fst (find_matches nltk_english garbage_rows matcher_init lost_wallet 5) = Inl ValueError"
proof -
  have g: "get_items garbage_rows (Some (opposite lost_wallet)) = [found_stopword, found_digit]"
    by code_simp
  have "build_vocabulary (docs_of nltk_english [found_stopword, found_digit]) = []"
    by code_simp
  with g show ?thesis by (simp add: find_matches_raises)
qed

text \<open>
  C3. The ids are unique (\<^verbatim>\<open>id TEXT PRIMARY KEY\<close>). The results come in
  descending order of score; the results that share a score come in the order
  of the fetched corpus; and the result does not depend on the attributes the
  \<^verbatim>\<open>Matcher\<close> object held before the call, so a repeated call returns the same
  list.
\<close>

theorem find_matches_ranking:
  assumes "distinct (map item_id rows)"
    and "fst (find_matches L rows m item k) = Inr rs"
  shows "sorted (rev (map snd rs))
       \<and> (\<forall>s. subseq (map fst (filter (\<lambda>r. snd r = s) rs)) (get_items rows (Some (opposite item))))
       \<and> fst (find_matches L rows m' item k) = Inr rs"
proof -
  let ?items = "get_items rows (Some (opposite item))"
  have det: "fst (find_matches L rows m' item k) = Inr rs"
    using assms(2) find_matches_state_free [of L rows m item k m'] by simp
  show ?thesis
  proof (cases "?items = []")
    case True
    then have "rs = []" using assms(2) by (simp add: find_matches_empty)
    then show ?thesis using det by simp
  next
    case False
    then have v: "build_vocabulary (docs_of L ?items) \<noteq> []"
      using find_matches_raises [of rows item L m k] assms(2) by auto
    from find_matches_distinct [OF refl False v assms(1), of m k] assms(2)
    obtain sims where l: "length sims = length ?items"
      and rs: "rs = slice_to (sorted_reverse snd (zip ?items sims)) k" by auto
    obtain n where n: "rs = take n (sorted_reverse snd (zip ?items sims))"
      using rs slice_to_is_take by metis
    have "sorted (rev (map snd rs))"
      unfolding n take_map [symmetric] by (rule sorted_rev_take) (rule sorted_reverse_descending)
    moreover have "subseq (map fst (filter (\<lambda>r. snd r = s) rs)) ?items" for s
    proof -
      have "subseq (map fst (filter (\<lambda>r. snd r = s) rs)) (map fst (zip ?items sims))"
        unfolding n by (rule subseq_ties)
      then show ?thesis by (simp add: l)
    qed
    ultimately show ?thesis using det by blast
  qed
qed

theorem find_matches_ranking_witness:
  "distinct (map item_id sample_rows)
   \<and> (\<exists>rs. fst (find_matches nltk_english sample_rows matcher_init lost_wallet 5) = Inr rs
          \<and> length rs = 2
          \<and> sorted (rev (map snd rs))
          \<and> (\<forall>s. subseq (map fst (filter (\<lambda>r. snd r = s) rs)) [found_wallet, found_umbrella])
          \<and> fst (find_matches nltk_english sample_rows
                  \<lparr>vectorizer = None, corpus_ids = [''f9''], corpus_texts = [''stale'']\<rparr>
                  lost_wallet 5) = Inr rs)"
proof -
  from find_matches_returns [of 5 sample_rows lost_wallet "[found_wallet, found_umbrella]"
      nltk_english matcher_init] sample_found sample_vocabulary
  obtain rs where r: "fst (find_matches nltk_english sample_rows matcher_init lost_wallet 5) = Inr rs"
    and l: "length rs = 2" by auto
  from find_matches_ranking [OF sample_distinct r,
      of "\<lparr>vectorizer = None, corpus_ids = [''f9''], corpus_texts = [''stale'']\<rparr>"]
  show ?thesis using sample_distinct r l by (simp add: sample_found)
qed

text \<open>
  C4. When no row has the opposite type, \<open>find_matches\<close> returns the empty
  list, raises nothing and leaves the object without a vectorizer.
\<close>

theorem find_matches_empty_corpus:
  assumes "get_items rows (Some (opposite item)) = []"
  shows "find_matches L rows m item k
           = (Inr [], \<lparr>vectorizer = None, corpus_ids = [], corpus_texts = []\<rparr>)"
  using assms by (rule find_matches_empty)

theorem find_matches_empty_corpus_witness:
  "get_items [lost_wallet] (Some (opposite lost_wallet)) = []
   \<and> find_matches nltk_english [lost_wallet] matcher_init lost_wallet 5
       = (Inr [], \<lparr>vectorizer = None, corpus_ids = [], corpus_texts = []\<rparr>)"
proof -
  have e: "get_items [lost_wallet] (Some (opposite lost_wallet)) = []" by code_simp
  from find_matches_empty_corpus [OF e] e show ?thesis by simp
qed

text \<open>
  C5. For \<open>k \<ge> 0\<close> and a corpus of \<open>N\<close> items that \<^verbatim>\<open>fit\<close> accepts (it is empty or
  some document holds a token), the ranking returns exactly \<open>min k N\<close> results;
  none for \<open>k = 0\<close>; and for \<open>k \<ge> N\<close> the ids of the results are the ids of the
  whole corpus.
\<close>

theorem find_matches_length:
  assumes "0 \<le> k" and "get_items rows (Some (opposite item)) = items"
    and "items = [] \<or> build_vocabulary (docs_of L items) \<noteq> []"
  shows "\<exists>rs. fst (find_matches L rows m item k) = Inr rs
           \<and> length rs = min (nat k) (length items)
           \<and> (k = 0 \<longrightarrow> rs = [])
           \<and> (length items \<le> nat k \<longrightarrow>
                mset (map (\<lambda>r. item_id (fst r)) rs) = mset (map item_id items))"
proof -
  from find_matches_returns [OF assms, of m] obtain rs where
    r: "fst (find_matches L rows m item k) = Inr rs"
       "length rs = min (nat k) (length items)"
       "length items \<le> nat k \<longrightarrow>
                mset (map (\<lambda>r. item_id (fst r)) rs) = mset (map item_id items)" by blast
  then have "k = 0 \<longrightarrow> rs = []" by auto
  with r show ?thesis by blast
qed

theorem find_matches_length_witness:
  "(0::int) \<le> 1
   \<and> get_items sample_rows (Some (opposite lost_wallet)) = [found_wallet, found_umbrella]
   \<and> (\<exists>rs. fst (find_matches nltk_english sample_rows matcher_init lost_wallet 1) = Inr rs
          \<and> length rs = 1)"
proof -
  have k: "(0::int) \<le> 1" by simp
  from find_matches_length [OF k sample_found, of nltk_english matcher_init] sample_vocabulary
  show ?thesis using sample_found by auto
qed

text \<open>
  C9. Every result is a row of the store, paired with its score, whose type is
  the opposite of the query's type: \<^verbatim>\<open>found\<close> for a \<^verbatim>\<open>lost\<close> query and \<^verbatim>\<open>lost\<close>
  for a \<^verbatim>\<open>found\<close> one, and never the type of the query.
\<close>

theorem find_matches_opposite_type:
  assumes "fst (find_matches L rows m item k) = Inr rs" and "r \<in> set rs"
  shows "fst r \<in> set rows
       \<and> item_type (fst r) = opposite item
       \<and> item_type (fst r) \<noteq> item_type item
       \<and> (item_type item = ''lost'' \<longrightarrow> item_type (fst r) = ''found'')
       \<and> (item_type item = ''found'' \<longrightarrow> item_type (fst r) = ''lost'')"
proof -
  from find_matches_results_in_corpus [OF assms(1)] assms(2)
  have "fst r \<in> set (filter (\<lambda>it. item_type it = opposite item) rows)"
    by (auto simp: get_items_opposite)
  then have "fst r \<in> set rows" and "item_type (fst r) = opposite item" by auto
  then show ?thesis by (auto simp: opposite_def)
qed

theorem find_matches_opposite_type_witness:
  "\<exists>rs. fst (find_matches nltk_english sample_rows matcher_init lost_wallet 5) = Inr rs
        \<and> rs \<noteq> []
        \<and> (\<forall>r \<in> set rs. fst r \<in> set sample_rows \<and> item_type (fst r) = ''found''
                         \<and> item_type (fst r) \<noteq> item_type lost_wallet)"
proof -
  from find_matches_returns [of 5 sample_rows lost_wallet "[found_wallet, found_umbrella]"
      nltk_english matcher_init] sample_found sample_vocabulary
  obtain rs where r: "fst (find_matches nltk_english sample_rows matcher_init lost_wallet 5) = Inr rs"
    and l: "length rs = 2" by auto
  have t: "item_type lost_wallet = ''lost''" by (simp add: lost_wallet_def)
  have "fst x \<in> set sample_rows \<and> item_type (fst x) = ''found''
          \<and> item_type (fst x) \<noteq> item_type lost_wallet" if "x \<in> set rs" for x
    using find_matches_opposite_type [OF r that] t by auto
  with r l show ?thesis by auto
qed

text \<open>
  C7 as stated fails: a query of type \<^verbatim>\<open>banana\<close> is not rejected. It is matched
  against the lost items and the lost wallet is returned.
\<close>

theorem invalid_type_not_rejected:
  "\<not> isl (fst (find_matches nltk_english sample_rows matcher_init mistyped_query 5))
   \<and> map (\<lambda>r. item_id (fst r))
        (projr (fst (find_matches nltk_english sample_rows matcher_init mistyped_query 5)))
      = [''l1'']"
proof -
  have g: "get_items sample_rows (Some (opposite mistyped_query)) = [lost_wallet]"
    by code_simp
  have v: "build_vocabulary (docs_of nltk_english [lost_wallet]) \<noteq> []"
    by code_simp
  from find_matches_returns [of 5 sample_rows mistyped_query "[lost_wallet]"
      nltk_english matcher_init] g v
  obtain rs where r: "fst (find_matches nltk_english sample_rows matcher_init mistyped_query 5) = Inr rs"
    and m: "mset (map (\<lambda>r. item_id (fst r)) rs) = mset (map item_id [lost_wallet])" by auto
  have "item_id lost_wallet = ''l1''" by (simp add: lost_wallet_def)
  with m have "mset (map (\<lambda>r. item_id (fst r)) rs) = {#''l1''#}" by simp
  then have "map (\<lambda>r. item_id (fst r)) rs = [''l1'']"
    by (rule mset_single_iff [THEN iffD1])
  with r show ?thesis by simp
qed

text \<open>
  C7, amended. There is no check of the type: a record whose type is not
  \<^verbatim>\<open>lost\<close> is processed exactly as a \<^verbatim>\<open>found\<close> record is.
\<close>

theorem invalid_type_treated_as_found:
  assumes "item_type item \<noteq> ''lost''"
  shows "find_matches L rows m item k = find_matches L rows m (item\<lparr>item_type := ''found''\<rparr>) k"
proof -
  have o: "opposite (item\<lparr>item_type := ''found''\<rparr>) = opposite item"
    using assms by (simp add: opposite_def)
  have t: "item_text (item\<lparr>item_type := ''found''\<rparr>) = item_text item"
    by (simp add: item_text_def)
  show ?thesis unfolding find_matches_def o t by (rule refl)
qed

theorem invalid_type_treated_as_found_witness:
  "item_type mistyped_query \<noteq> ''lost''
   \<and> find_matches nltk_english sample_rows matcher_init mistyped_query 5
       = find_matches nltk_english sample_rows matcher_init
           (mistyped_query\<lparr>item_type := ''found''\<rparr>) 5"
proof -
  have t: "item_type mistyped_query \<noteq> ''lost''" by (simp add: mistyped_query_def)
  from invalid_type_treated_as_found [OF t] t show ?thesis by simp
qed

subsection \<open>The tokens of the vectorizer\<close>

lemma runs_append_sep:
  "\<not> P c \<Longrightarrow> runs P cur (xs @ c # ys) = runs P cur xs @ runs P [] ys"
  by (induction xs arbitrary: cur) auto

lemma runs_short: "length cur + length xs \<le> 1 \<Longrightarrow> \<forall>t \<in> set (runs P cur xs). length t \<le> 1"
proof (induction xs arbitrary: cur)
  case Nil
  then show ?case by simp
next
  case (Cons x xs)
  then show ?case by (cases xs) auto
qed

lemma lower_append: "lower (a @ b) = lower a @ lower b"
  by (simp add: lower_def)

lemma lower_blank: "lower (CHR '' '' # b) = CHR '' '' # lower b"
  by (simp add: lower_def lower_char_def ascii_uppercase_def ascii_lowercase_def)

lemma blank_not_word: "CHR '' '' \<notin> set word_chars"
  by (simp add: word_chars_def ascii_uppercase_def ascii_lowercase_def ascii_digits_def)

lemma analyzer_blank: "analyzer (a @ CHR '' '' # b) = analyzer a @ analyzer b"
  using runs_append_sep [of "\<lambda>c. c \<in> set word_chars" "CHR '' ''" "[]" "lower a" "lower b"]
  by (simp add: analyzer_def token_pattern_findall_def lower_append lower_blank blank_not_word)

lemma analyzer_Nil: "analyzer [] = []"
  by (simp add: analyzer_def token_pattern_findall_def lower_def)

lemma analyzer_join: "analyzer (join '' '' ts) = concat (map analyzer ts)"
proof (induction "'' ''" ts rule: join.induct)
  case 1
  then show ?case by (simp add: analyzer_Nil)
next
  case (2 t)
  then show ?case by simp
next
  case (3 t u ts)
  then show ?case by (simp add: analyzer_blank)
qed

lemma analyzer_single: "length t = 1 \<Longrightarrow> analyzer t = []"
proof -
  assume "length t = 1"
  then have "length [] + length (lower t) \<le> 1" by (simp add: lower_def)
  from runs_short [OF this, of "\<lambda>c. c \<in> set word_chars"]
  show ?thesis
    by (auto simp: analyzer_def token_pattern_findall_def filter_empty_conv)
qed

lemma analyzer_drop_single_letters:
  "analyzer (join '' '' (drop_single_letters ts)) = analyzer (join '' '' ts)"
  unfolding analyzer_join drop_single_letters_def
  by (induction ts) (auto simp: analyzer_single)

lemma analyzer_tokens_long: "t \<in> set (analyzer doc) \<Longrightarrow> 2 \<le> length t"
  by (simp add: analyzer_def token_pattern_findall_def)

lemma vocabulary_tokens_long: "t \<in> set (build_vocabulary docs) \<Longrightarrow> 2 \<le> length t"
  by (auto simp: build_vocabulary_def analyzer_tokens_long)

lemma fit_cong:
  assumes "map analyzer docs' = map analyzer docs"
  shows "TfidfVectorizer_fit docs' = TfidfVectorizer_fit docs"
proof -
  have l: "length docs' = length docs" using assms by (rule map_eq_imp_length_eq)
  have v: "build_vocabulary docs' = build_vocabulary docs"
    by (simp add: build_vocabulary_def assms)
  have df: "document_frequency ds t =
        length (filter (\<lambda>ts. t \<in> set ts) (map analyzer ds))" for t ds
    by (simp add: document_frequency_def filter_map comp_def)
  have "document_frequency docs' t = document_frequency docs t" for t
    by (simp only: df assms)
  then have i: "smooth_idf docs' = smooth_idf docs"
    by (simp add: fun_eq_iff smooth_idf_def l)
  show ?thesis unfolding TfidfVectorizer_fit_def v i by (rule refl)
qed

lemma transform_cong:
  assumes "map analyzer docs' = map analyzer docs"
  shows "transform v docs' = transform v docs"
proof -
  let ?row = "\<lambda>ts. l2_normalize (map (\<lambda>(t, w). real (count_list ts t) * w) (zip (vocabulary v) (idf v)))"
  have "transform v ds = map ?row (map analyzer ds)" for ds
    by (simp add: transform_def comp_def)
  then show ?thesis by (simp only: assms)
qed

text \<open>
  C10. No term of a fitted vocabulary has fewer than two characters, and the
  tokens of one character change nothing: fitting the corpus and scoring the
  query give the same results with and without them.
\<close>

theorem single_letters_never_counted:
  "(\<forall>v. TfidfVectorizer_fit (map (join '' '') tss) = Inr v \<longrightarrow>
          (\<forall>t \<in> set (vocabulary v). 2 \<le> length t))
   \<and> TfidfVectorizer_fit (map (\<lambda>ts. join '' '' (drop_single_letters ts)) tss)
       = TfidfVectorizer_fit (map (join '' '') tss)
   \<and> (\<forall>v. cosine_similarity (transform v [join '' '' (drop_single_letters q)])
              (transform v (map (\<lambda>ts. join '' '' (drop_single_letters ts)) tss))
          = cosine_similarity (transform v [join '' '' q]) (transform v (map (join '' '') tss)))"
proof -
  have a: "map analyzer (map (\<lambda>ts. join '' '' (drop_single_letters ts)) tss)
         = map analyzer (map (join '' '') tss)"
    by (simp add: analyzer_drop_single_letters)
  have b: "map analyzer [join '' '' (drop_single_letters q)] = map analyzer [join '' '' q]"
    by (simp add: analyzer_drop_single_letters)
  have "\<forall>t \<in> set (vocabulary v). 2 \<le> length t"
    if "TfidfVectorizer_fit (map (join '' '') tss) = Inr v" for v
  proof -
    from that have "vocabulary v = build_vocabulary (map (join '' '') tss)"
      by (auto simp: TfidfVectorizer_fit_def Let_def split: if_splits)
    then show ?thesis by (simp add: vocabulary_tokens_long)
  qed
  then show ?thesis
    using fit_cong [OF a] transform_cong [OF a] transform_cong [OF b] by simp
qed

theorem single_letters_never_counted_witness:
  "preprocess nltk_english (Some ''x ray b'') = join '' '' [''x'', ''ray'', ''b'']
   \<and> drop_single_letters [''x'', ''ray'', ''b''] = [''ray'']
   \<and> TfidfVectorizer_fit [''x ray b''] = Inr \<lparr>vocabulary = [''ray''], idf = [1]\<rparr>
   \<and> TfidfVectorizer_fit [''ray''] = TfidfVectorizer_fit [''x ray b'']
   \<and> cosine_similarity (transform \<lparr>vocabulary = [''ray''], idf = [1]\<rparr> [''ray''])
         (transform \<lparr>vocabulary = [''ray''], idf = [1]\<rparr> [''ray''])
       = cosine_similarity (transform \<lparr>vocabulary = [''ray''], idf = [1]\<rparr> [''b ray''])
         (transform \<lparr>vocabulary = [''ray''], idf = [1]\<rparr> [''x ray b''])"
proof -
  have p: "preprocess nltk_english (Some ''x ray b'') = join '' '' [''x'', ''ray'', ''b'']"
    by code_simp
  have d: "drop_single_letters [''x'', ''ray'', ''b''] = [''ray'']"
     "drop_single_letters [''b'', ''ray''] = [''ray'']"
    by code_simp+
  have v: "build_vocabulary [''x ray b''] = [''ray'']" by code_simp
  have n: "document_frequency [''x ray b''] ''ray'' = 1" by code_simp
  have f: "TfidfVectorizer_fit [''x ray b''] = Inr \<lparr>vocabulary = [''ray''], idf = [1]\<rparr>"
    by (simp add: TfidfVectorizer_fit_def v smooth_idf_def n)
  from single_letters_never_counted [of "[[''x'', ''ray'', ''b'']]" "[''b'', ''ray'']"]
  show ?thesis using p d f by simp
qed

end
